theory Spec2Isabelle
  imports Complex_Main
begin

section \<open>JavaScript strings\<close>

text \<open>
  A string is the list of its code units. The model covers ASCII text, the range the
  specification sets for email addresses: \<open>toLowerCase\<close> maps the letters \<open>A\<close> to \<open>Z\<close>
  to \<open>a\<close> to \<open>z\<close> and leaves every other code unit alone.
\<close>

definition toLowerCase_char :: "char \<Rightarrow> char" where
  "toLowerCase_char c =
     (let n = (of_char c :: nat) in if 65 \<le> n \<and> n \<le> 90 then char_of (n + 32) else c)"

definition toLowerCase :: "string \<Rightarrow> string" where
  "toLowerCase s = map toLowerCase_char s"

text \<open>\<open>s.includes(c)\<close> for a one-character search string.\<close>

definition str_includes :: "string \<Rightarrow> char \<Rightarrow> bool" where
  "str_includes s c = (c \<in> set s)"

text \<open>\<open>s.indexOf(c)\<close>: the index of the first occurrence, \<open>-1\<close> when there is none.\<close>

fun indexOf :: "string \<Rightarrow> char \<Rightarrow> int" where
  "indexOf [] c = - 1"
| "indexOf (x # xs) c =
     (if x = c then 0 else (let i = indexOf xs c in if i < 0 then - 1 else i + 1))"

text \<open>
  \<open>s.slice(b, e)\<close>: a negative index counts from the end, and both indices are clamped
  to the length of the string.
\<close>

definition clampIndex :: "int \<Rightarrow> nat \<Rightarrow> nat" where
  "clampIndex i n = (if i < 0 then nat (max (int n + i) 0) else min (nat i) n)"

definition slice :: "string \<Rightarrow> int \<Rightarrow> int \<Rightarrow> string" where
  "slice s b e =
     (let n = length s; from = clampIndex b n; to = clampIndex e n
      in take (to - from) (drop from s))"

text \<open>\<open>s.slice(b)\<close>: the end defaults to the length.\<close>

definition slice_from :: "string \<Rightarrow> int \<Rightarrow> string" where
  "slice_from s b = slice s b (int (length s))"

text \<open>\<open>s.charAt(i)\<close>: the empty string when the index is out of range.\<close>

definition charAt :: "string \<Rightarrow> int \<Rightarrow> string" where
  "charAt s i = (if 0 \<le> i \<and> i < int (length s) then [s ! nat i] else [])"

section \<open>EmailMasker: maskEmail\<close>

definition maskEmail :: "string \<Rightarrow> string" where
  "maskEmail addr =
     (if addr = [] \<or> \<not> str_includes addr CHR ''@''
      then (if addr = [] then [] else addr)
      else
        (let atIndex = indexOf addr CHR ''@'';
             localPart = slice addr 0 atIndex;
             domain = slice_from addr (atIndex + 1)
         in if length localPart = 0 then ''***@'' @ domain
            else (let maskedLocal = charAt localPart 0 @ ''***''
                  in maskedLocal @ ''@'' @ domain)))"

section \<open>JSON values, as \<open>JSON.parse\<close> delivers them\<close>

text \<open>
  An object is the list of its own enumerable properties in enumeration order (what
  \<open>Object.entries\<close> returns); the parser leaves no key twice. Numbers are only passed
  through, never computed with.
\<close>

datatype json =
    JNull
  | JBool bool
  | JNumber real
  | JString string
  | JArray "json list"
  | JObject "(string \<times> json) list"

fun typeof_js :: "json \<Rightarrow> string" where
  "typeof_js JNull = ''object''"
| "typeof_js (JBool b) = ''boolean''"
| "typeof_js (JNumber n) = ''number''"
| "typeof_js (JString s) = ''string''"
| "typeof_js (JArray xs) = ''object''"
| "typeof_js (JObject ps) = ''object''"

text \<open>Truthiness of a value that is not \<open>undefined\<close>.\<close>

fun truthy :: "json \<Rightarrow> bool" where
  "truthy JNull = False"
| "truthy (JBool b) = b"
| "truthy (JNumber n) = (n \<noteq> 0)"
| "truthy (JString s) = (s \<noteq> [])"
| "truthy (JArray xs) = True"
| "truthy (JObject ps) = True"

text \<open>The decimal name of an array index.\<close>

definition digit :: "nat \<Rightarrow> char" where
  "digit n = ''0123456789'' ! n"

function showNat :: "nat \<Rightarrow> string" where
  "showNat n = (if n < 10 then [digit n] else showNat (n div 10) @ [digit (n mod 10)])"
  by pat_completeness auto
termination
  by (relation "measure id") auto

declare showNat.simps [simp del]

fun Object_entries :: "json \<Rightarrow> (string \<times> json) list" where
  "Object_entries (JObject ps) = ps"
| "Object_entries (JArray xs) = zip (map showNat [0..<length xs]) xs"
| "Object_entries v = []"

text \<open>
  Reading an own property; \<open>None\<close> is \<open>undefined\<close>. The three names that
  \<open>validateConfig\<close> reads are inherited from no built-in prototype, so own properties
  decide them.
\<close>

fun get_prop :: "json \<Rightarrow> string \<Rightarrow> json option" where
  "get_prop (JObject ps) name = map_of ps name"
| "get_prop (JArray xs) name =
     (if name = ''length'' then Some (JNumber (real (length xs)))
      else map_of (Object_entries (JArray xs)) name)"
| "get_prop v name = None"

section \<open>PrivacyConfig\<close>

text \<open>
  All three fields are optional in the interface. \<open>emailMappings\<close> is a plain object
  used as a dictionary: the map holds its own properties.
\<close>

record PrivacyConfig =
  version :: "real option"
  emailMappings :: "(string \<rightharpoonup> string) option"
  defaultCalendarId :: "string option"

definition DEFAULT_PRIVACY_CONFIG :: PrivacyConfig where
  "DEFAULT_PRIVACY_CONFIG =
     \<lparr>version = Some 1, emailMappings = Some Map.empty, defaultCalendarId = None\<rparr>"

section \<open>Plain objects as dictionaries\<close>

text \<open>
  A plain object inherits from \<open>Object.prototype\<close>. The \<open>in\<close> operator and a property
  read follow the prototype chain, so they also find the names below; and an assignment
  to \<open>__proto__\<close> runs the inherited setter, which ignores a string and creates no own
  property.
\<close>

definition Object_prototype_names :: "string list" where
  "Object_prototype_names =
     [''constructor'', ''__defineGetter__'', ''__defineSetter__'', ''hasOwnProperty'',
      ''__lookupGetter__'', ''__lookupSetter__'', ''isPrototypeOf'',
      ''propertyIsEnumerable'', ''toString'', ''valueOf'', ''__proto__'',
      ''toLocaleString'']"

text \<open>What a property read yields: an own string, or an inherited member (not a string).\<close>

datatype propval = Str string | Inherited string

definition js_in :: "string \<Rightarrow> (string \<rightharpoonup> string) \<Rightarrow> bool" where
  "js_in k obj = (obj k \<noteq> None \<or> k \<in> set Object_prototype_names)"

definition js_get :: "(string \<rightharpoonup> string) \<Rightarrow> string \<Rightarrow> propval option" where
  "js_get obj k =
     (case obj k of
        Some v \<Rightarrow> Some (Str v)
      | None \<Rightarrow> if k \<in> set Object_prototype_names then Some (Inherited k) else None)"

definition js_set :: "(string \<rightharpoonup> string) \<Rightarrow> string \<Rightarrow> string \<Rightarrow> (string \<rightharpoonup> string)" where
  "js_set obj k v = (if k = ''__proto__'' then obj else obj(k \<mapsto> v))"

section \<open>EmailMasker: applyEmailPrivacy\<close>

record MaskedEmailResult =
  email :: string
  displayName :: "propval option"

text \<open>\<open>googleDisplayName || undefined\<close>, with \<open>None\<close> for \<open>undefined\<close> and \<open>null\<close>.\<close>

definition or_undefined :: "string option \<Rightarrow> propval option" where
  "or_undefined name =
     (case name of None \<Rightarrow> None | Some s \<Rightarrow> if s = [] then None else Some (Str s))"

definition applyEmailPrivacy ::
    "string option \<Rightarrow> string option \<Rightarrow> PrivacyConfig \<Rightarrow> MaskedEmailResult" where
  "applyEmailPrivacy addr googleDisplayName cfg =
     (case addr of
        None \<Rightarrow> \<lparr>email = [], displayName = or_undefined googleDisplayName\<rparr>
      | Some e \<Rightarrow>
          if e = [] then \<lparr>email = [], displayName = or_undefined googleDisplayName\<rparr>
          else
            (let emailLower = toLowerCase e;
                 mappings = (case emailMappings cfg of None \<Rightarrow> Map.empty | Some m \<Rightarrow> m)
             in if js_in emailLower mappings
                then \<lparr>email = e, displayName = js_get mappings emailLower\<rparr>
                else \<lparr>email = maskEmail e, displayName = or_undefined googleDisplayName\<rparr>))"

section \<open>PrivacyConfigLoader: the path of the config file\<close>

text \<open>
  What the function reads from the Node runtime: the environment, the \<open>path\<close> module of
  the platform and the home directory.
\<close>

record runtime =
  process_env :: "string \<rightharpoonup> string"
  path_resolve :: "string \<Rightarrow> string"
  path_join :: "string list \<Rightarrow> string"
  os_homedir :: string

text \<open>Truthiness of \<open>process.env.X\<close>: set, and not to the empty string.\<close>

definition env_truthy :: "string option \<Rightarrow> bool" where
  "env_truthy v = (case v of None \<Rightarrow> False | Some s \<Rightarrow> s \<noteq> [])"

definition getPrivacyConfigPath :: "runtime \<Rightarrow> string" where
  "getPrivacyConfigPath rt =
     (if env_truthy (process_env rt ''PRIVACY_CONFIG_PATH'')
      then path_resolve rt (the (process_env rt ''PRIVACY_CONFIG_PATH''))
      else
        (let configDir =
               (if env_truthy (process_env rt ''XDG_CONFIG_HOME'')
                then the (process_env rt ''XDG_CONFIG_HOME'')
                else path_join rt [os_homedir rt, ''.config''])
         in path_join rt [configDir, ''stella2211-google-calendar-mcp'', ''config.json'']))"

subsection \<open>The \<open>path\<close> module on a POSIX platform\<close>

fun splitOn :: "char \<Rightarrow> string \<Rightarrow> string list" where
  "splitOn c [] = [[]]"
| "splitOn c (x # xs) =
     (if x = c then [] # splitOn c xs
      else (case splitOn c xs of [] \<Rightarrow> [[x]] | seg # segs \<Rightarrow> (x # seg) # segs))"

fun joinSlash :: "string list \<Rightarrow> string" where
  "joinSlash [] = []"
| "joinSlash [seg] = seg"
| "joinSlash (seg # segs) = seg @ CHR ''/'' # joinSlash segs"

text \<open>The segments kept so far are held in reverse.\<close>

fun normalizeSegments :: "bool \<Rightarrow> string list \<Rightarrow> string list \<Rightarrow> string list" where
  "normalizeSegments allowAboveRoot res [] = rev res"
| "normalizeSegments allowAboveRoot res (seg # segs) =
     (if seg = [] \<or> seg = ''.'' then normalizeSegments allowAboveRoot res segs
      else if seg = ''..'' then
        (case res of
           [] \<Rightarrow> normalizeSegments allowAboveRoot (if allowAboveRoot then [''..''] else []) segs
         | r # rs \<Rightarrow>
             if r = ''..''
             then normalizeSegments allowAboveRoot (if allowAboveRoot then ''..'' # res else res) segs
             else normalizeSegments allowAboveRoot rs segs)
      else normalizeSegments allowAboveRoot (seg # res) segs)"

definition posix_normalizeString :: "string \<Rightarrow> bool \<Rightarrow> string" where
  "posix_normalizeString p allowAboveRoot =
     joinSlash (normalizeSegments allowAboveRoot [] (splitOn CHR ''/'' p))"

definition posix_normalize :: "string \<Rightarrow> string" where
  "posix_normalize p =
     (if p = [] then ''.''
      else
        (let isAbsolute = (hd p = CHR ''/'');
             trailingSeparator = (last p = CHR ''/'');
             q = posix_normalizeString p (\<not> isAbsolute)
         in if q = [] then (if isAbsolute then ''/'' else if trailingSeparator then ''./'' else ''.'')
            else (let q' = (if trailingSeparator then q @ ''/'' else q)
                  in if isAbsolute then CHR ''/'' # q' else q')))"

definition posix_join :: "string list \<Rightarrow> string" where
  "posix_join parts =
     (let joined = filter (\<lambda>arg. arg \<noteq> []) parts
      in if joined = [] then ''.'' else posix_normalize (joinSlash joined))"

text \<open>\<open>path.resolve\<close> of one argument, in the working directory \<open>cwd\<close>.\<close>

definition posix_resolve :: "string \<Rightarrow> string \<Rightarrow> string" where
  "posix_resolve cwd p =
     (let r1 = (if p = [] then [] else p @ ''/'');
          abs1 = (p \<noteq> [] \<and> hd p = CHR ''/'');
          r2 = (if abs1 \<or> cwd = [] then r1 else cwd @ ''/'' @ r1);
          abs2 = (if abs1 \<or> cwd = [] then abs1 else hd cwd = CHR ''/'');
          q = posix_normalizeString r2 (\<not> abs2)
      in if abs2 then CHR ''/'' # q else if q \<noteq> [] then q else ''.'')"

definition posix_runtime :: "(string \<rightharpoonup> string) \<Rightarrow> string \<Rightarrow> string \<Rightarrow> runtime" where
  "posix_runtime environment cwd home =
     \<lparr>process_env = environment, path_resolve = posix_resolve cwd,
      path_join = posix_join, os_homedir = home\<rparr>"

section \<open>PrivacyConfigLoader: validateConfig\<close>

text \<open>The loop over \<open>Object.entries\<close> that rebuilds the mappings with lowercased keys.\<close>

definition rebuildMappings :: "(string \<times> json) list \<Rightarrow> (string \<rightharpoonup> string)" where
  "rebuildMappings entries =
     fold (\<lambda>(k, name) acc.
             case name of JString s \<Rightarrow> js_set acc (toLowerCase k) s | _ \<Rightarrow> acc)
          entries Map.empty"

text \<open>The two tests of the guard are taken in order, as \<open>||\<close> takes them.\<close>

definition validateConfig :: "json \<Rightarrow> PrivacyConfig" where
  "validateConfig parsed =
     (if typeof_js parsed \<noteq> ''object'' then DEFAULT_PRIVACY_CONFIG
      else if parsed = JNull then DEFAULT_PRIVACY_CONFIG
      else
        (let c0 = DEFAULT_PRIVACY_CONFIG;
             c1 = (case get_prop parsed ''version'' of
                     Some (JNumber n) \<Rightarrow> c0\<lparr>version := Some n\<rparr>
                   | _ \<Rightarrow> c0);
             c2 = (case get_prop parsed ''emailMappings'' of
                     Some m \<Rightarrow>
                       if truthy m \<and> typeof_js m = ''object''
                       then c1\<lparr>emailMappings := Some (rebuildMappings (Object_entries m))\<rparr>
                       else c1
                   | None \<Rightarrow> c1);
             c3 = (case get_prop parsed ''defaultCalendarId'' of
                     Some (JString s) \<Rightarrow> if s \<noteq> [] then c2\<lparr>defaultCalendarId := Some s\<rparr> else c2
                   | _ \<Rightarrow> c2)
         in c3))"

section \<open>PrivacyConfigLoader: loadConfig and invalidateCache\<close>

record PrivacyConfigLoader =
  config :: "PrivacyConfig option"
  configPath :: string
  lastLoadTime :: int

definition CACHE_TTL :: int where
  "CACHE_TTL = 60 * 1000"

definition new_PrivacyConfigLoader :: "runtime \<Rightarrow> PrivacyConfigLoader" where
  "new_PrivacyConfigLoader rt =
     \<lparr>config = None, configPath = getPrivacyConfigPath rt, lastLoadTime = 0\<rparr>"

datatype exn =
    ErrnoException string
  | SyntaxError
  | OtherThrown

text \<open>
  What one call of \<open>loadConfig\<close> meets outside the loader: the clock when the call
  starts, the file system, the JSON parser (\<open>None\<close> when it throws), the clock when the
  read has settled, and \<open>NODE_ENV\<close>.
\<close>

record io =
  now_start :: int
  fs_readFile :: "string \<Rightarrow> exn + string"
  JSON_parse :: "string \<Rightarrow> json option"
  now_end :: int
  NODE_ENV :: "string option"

text \<open>
  What a call leaves behind: the config it returns, the loader afterwards, the paths it
  passed to \<open>fs.readFile\<close>, and the warnings it wrote to the error stream.
\<close>

record outcome =
  returned :: PrivacyConfig
  loader :: PrivacyConfigLoader
  fileReads :: "string list"
  warnings :: "(string \<times> exn) list"

datatype 'a promise = Resolved 'a | Rejected exn

definition is_fresh :: "PrivacyConfigLoader \<Rightarrow> int \<Rightarrow> bool" where
  "is_fresh l now = (config l \<noteq> None \<and> now - lastLoadTime l < CACHE_TTL)"

text \<open>The body of the \<open>try\<close> block, up to the validated config.\<close>

definition try_load :: "io \<Rightarrow> PrivacyConfigLoader \<Rightarrow> exn + PrivacyConfig" where
  "try_load w l =
     (case fs_readFile w (configPath l) of
        Inl err \<Rightarrow> Inl err
      | Inr fileContent \<Rightarrow>
          (case JSON_parse w fileContent of
             None \<Rightarrow> Inl SyntaxError
           | Some parsed \<Rightarrow> Inr (validateConfig parsed)))"

definition loadConfig :: "io \<Rightarrow> PrivacyConfigLoader \<Rightarrow> outcome promise" where
  "loadConfig w l =
     (if is_fresh l (now_start w)
      then Resolved \<lparr>returned = the (config l), loader = l, fileReads = [], warnings = []\<rparr>
      else
        (case try_load w l of
           Inr c \<Rightarrow>
             Resolved \<lparr>returned = c,
                       loader = l\<lparr>config := Some c, lastLoadTime := now_end w\<rparr>,
                       fileReads = [configPath l], warnings = []\<rparr>
         | Inl err \<Rightarrow>
             if err = ErrnoException ''ENOENT''
             then Resolved \<lparr>returned = DEFAULT_PRIVACY_CONFIG,
                            loader = l\<lparr>config := Some DEFAULT_PRIVACY_CONFIG,
                                       lastLoadTime := now_end w\<rparr>,
                            fileReads = [configPath l], warnings = []\<rparr>
             else Resolved \<lparr>returned = DEFAULT_PRIVACY_CONFIG,
                            loader = l\<lparr>config := Some DEFAULT_PRIVACY_CONFIG,
                                       lastLoadTime := now_end w\<rparr>,
                            fileReads = [configPath l],
                            warnings = (if NODE_ENV w \<noteq> Some ''test''
                                        then [(configPath l, err)] else [])\<rparr>))"

definition invalidateCache :: "PrivacyConfigLoader \<Rightarrow> PrivacyConfigLoader" where
  "invalidateCache l = l\<lparr>config := None, lastLoadTime := 0\<rparr>"

text \<open>A loader used over time: a sequence of calls, each leaving its outcome.\<close>

datatype call = LoadConfig io | InvalidateCache

fun run :: "PrivacyConfigLoader \<Rightarrow> call list \<Rightarrow> outcome list" where
  "run l [] = []"
| "run l (InvalidateCache # cs) = run (invalidateCache l) cs"
| "run l (LoadConfig w # cs) =
     (case loadConfig w l of
        Resolved out \<Rightarrow> out # run (loader out) cs
      | Rejected err \<Rightarrow> [])"

section \<open>Notions the claims are stated with\<close>

text \<open>A value that \<open>typeof\<close> calls an object and that is not \<open>null\<close>.\<close>

definition is_object :: "json \<Rightarrow> bool" where
  "is_object v = (case v of JObject ps \<Rightarrow> True | JArray xs \<Rightarrow> True | _ \<Rightarrow> False)"

text \<open>A JSON object in the narrow sense: not an array.\<close>

definition is_JObject :: "json \<Rightarrow> bool" where
  "is_JObject v = (case v of JObject ps \<Rightarrow> True | _ \<Rightarrow> False)"

text \<open>The own entry of a config's mappings under a key.\<close>

definition ownMapping :: "PrivacyConfig \<Rightarrow> string \<Rightarrow> string option" where
  "ownMapping c k = (case emailMappings c of None \<Rightarrow> None | Some m \<Rightarrow> m k)"

text \<open>The string-valued entries of an object, with lowercased keys, in enumeration order.\<close>

definition lowered_entries :: "(string \<times> json) list \<Rightarrow> (string \<times> string) list" where
  "lowered_entries entries =
     concat (map (\<lambda>(k, name). case name of JString s \<Rightarrow> [(toLowerCase k, s)] | _ \<Rightarrow> [])
               entries)"

text \<open>
  Validation as the specification words it: every string-valued entry is stored under
  its lowercased key, a later one over an earlier one.
\<close>

definition rebuildMappings_spec :: "(string \<times> json) list \<Rightarrow> (string \<rightharpoonup> string)" where
  "rebuildMappings_spec entries =
     fold (\<lambda>(k, name) acc. case name of JString s \<Rightarrow> acc(toLowerCase k \<mapsto> s) | _ \<Rightarrow> acc)
          entries Map.empty"

definition validateConfig_spec :: "json \<Rightarrow> PrivacyConfig" where
  "validateConfig_spec parsed =
     (if \<not> is_object parsed then DEFAULT_PRIVACY_CONFIG
      else
        \<lparr>version =
           (case get_prop parsed ''version'' of
              Some (JNumber n) \<Rightarrow> Some n
            | _ \<Rightarrow> version DEFAULT_PRIVACY_CONFIG),
         emailMappings =
           (case get_prop parsed ''emailMappings'' of
              Some m \<Rightarrow>
                if is_object m then Some (rebuildMappings_spec (Object_entries m))
                else emailMappings DEFAULT_PRIVACY_CONFIG
            | None \<Rightarrow> emailMappings DEFAULT_PRIVACY_CONFIG),
         defaultCalendarId =
           (case get_prop parsed ''defaultCalendarId'' of
              Some (JString s) \<Rightarrow>
                if s \<noteq> [] then Some s else defaultCalendarId DEFAULT_PRIVACY_CONFIG
            | _ \<Rightarrow> defaultCalendarId DEFAULT_PRIVACY_CONFIG)\<rparr>)"

text \<open>What the loader guarantees of every config it hands out.\<close>

definition wellFormed :: "PrivacyConfig \<Rightarrow> bool" where
  "wellFormed c =
     (version c \<noteq> None \<and> emailMappings c \<noteq> None
      \<and> (\<forall>k v. ownMapping c k = Some v \<longrightarrow> toLowerCase k = k))"

definition returnedConfigs :: "PrivacyConfigLoader \<Rightarrow> call list \<Rightarrow> PrivacyConfig list" where
  "returnedConfigs l calls = map returned (run l calls)"

text \<open>The config a settled call delivered, if it delivered one.\<close>

definition resolvedConfig :: "outcome promise \<Rightarrow> PrivacyConfig option" where
  "resolvedConfig p = (case p of Resolved out \<Rightarrow> Some (returned out) | Rejected err \<Rightarrow> None)"

text \<open>The outcome of a call answered from the cache that \<open>out\<close> left behind.\<close>

definition cacheHit :: "outcome \<Rightarrow> outcome" where
  "cacheHit out = \<lparr>returned = returned out, loader = loader out, fileReads = [], warnings = []\<rparr>"

section \<open>Concrete surroundings for the examples\<close>

text \<open>
  A call whose file read has the given outcome whatever the path, and whose parser
  returns the given value.
\<close>

definition io_with :: "int \<Rightarrow> int \<Rightarrow> exn + string \<Rightarrow> json option \<Rightarrow> io" where
  "io_with t0 t1 file parsed =
     \<lparr>now_start = t0, fs_readFile = (\<lambda>p. file), JSON_parse = (\<lambda>s. parsed), now_end = t1,
      NODE_ENV = Some ''test''\<rparr>"

definition missing_file :: "int \<Rightarrow> int \<Rightarrow> io" where
  "missing_file t0 t1 = io_with t0 t1 (Inl (ErrnoException ''ENOENT'')) None"

text \<open>A loader that has not loaded yet, and one that cached the defaults at time \<open>t\<close>.\<close>

definition fresh_loader :: "string \<Rightarrow> PrivacyConfigLoader" where
  "fresh_loader p = \<lparr>config = None, configPath = p, lastLoadTime = 0\<rparr>"

definition loaded_at :: "string \<Rightarrow> int \<Rightarrow> PrivacyConfigLoader" where
  "loaded_at p t = \<lparr>config = Some DEFAULT_PRIVACY_CONFIG, configPath = p, lastLoadTime = t\<rparr>"

definition sample_runtime :: runtime where
  "sample_runtime = posix_runtime Map.empty ''/srv/app'' ''/home/user''"

definition sample_file :: json where
  "sample_file =
     JObject [(''version'', JNumber 2),
              (''emailMappings'',
                 JObject [(''JOHN@EXAMPLE.COM'', JString ''John Smith''),
                          (''Jane@Company.Org'', JString ''Jane Doe''),
                          (''invalid@example.com'', JNumber 123)]),
              (''defaultCalendarId'', JString ''work@gmail.com'')]"

section \<open>Facts about the string primitives\<close>

lemma indexOf_absent: "c \<notin> set s \<Longrightarrow> indexOf s c = - 1"
  by (induction s) (auto simp: Let_def)

lemma indexOf_first: "c \<notin> set l \<Longrightarrow> indexOf (l @ c # d) c = int (length l)"
  by (induction l) (auto simp: Let_def)

lemma slice_prefix: "slice (l @ c # d) 0 (int (length l)) = l"
  by (simp add: slice_def clampIndex_def Let_def)

lemma slice_from_suffix: "slice_from (l @ c # d) (int (length l) + 1) = d"
  by (simp add: slice_from_def slice_def clampIndex_def Let_def nat_add_distrib)

lemma charAt_first: "l \<noteq> [] \<Longrightarrow> charAt l 0 = [hd l]"
  by (cases l) (simp_all add: charAt_def)

lemma maskEmail_split:
  assumes "CHR ''@'' \<notin> set l"
  shows "maskEmail (l @ CHR ''@'' # d) =
           (if l = [] then ''***@'' @ d else hd l # ''***@'' @ d)"
proof -
  have i: "indexOf (l @ CHR ''@'' # d) CHR ''@'' = int (length l)"
    using assms by (rule indexOf_first)
  have p: "slice (l @ CHR ''@'' # d) 0 (int (length l)) = l"
    by (rule slice_prefix)
  have s: "slice_from (l @ CHR ''@'' # d) (int (length l) + 1) = d"
    by (rule slice_from_suffix)
  have m: "maskEmail (l @ CHR ''@'' # d) =
             (if length l = 0 then ''***@'' @ d else (charAt l 0 @ ''***'') @ ''@'' @ d)"
    unfolding maskEmail_def Let_def i p s by (simp add: str_includes_def)
  show ?thesis
    unfolding m by (cases l) (simp_all add: charAt_def)
qed

lemma toLowerCase_char_idem: "toLowerCase_char (toLowerCase_char c) = toLowerCase_char c"
  by (simp add: toLowerCase_char_def Let_def)

lemma toLowerCase_idem: "toLowerCase (toLowerCase s) = toLowerCase s"
  by (simp add: toLowerCase_def toLowerCase_char_idem)


lemma toLowerCase_samples:
  "toLowerCase ''KNOWN@EXAMPLE.COM'' = ''known@example.com''"
  "toLowerCase ''JOHN@EXAMPLE.COM'' = ''john@example.com''"
  "toLowerCase ''Jane@Company.Org'' = ''jane@company.org''"
  "toLowerCase ''invalid@example.com'' = ''invalid@example.com''"
  "toLowerCase ''constructor'' = ''constructor''"
  "toLowerCase ''__proto__'' = ''__proto__''"
  "toLowerCase ''__PROTO__'' = ''__proto__''"
  by code_simp+

section \<open>Facts about applyEmailPrivacy\<close>

text \<open>
  An address that is neither an own key of the mappings nor a name inherited from
  \<open>Object.prototype\<close> is masked, and the external display name is kept.
\<close>

lemma applyEmailPrivacy_unknown:
  assumes "ownMapping cfg (toLowerCase e) = None"
    and "toLowerCase e \<notin> set Object_prototype_names"
  shows "applyEmailPrivacy (Some e) g cfg =
           \<lparr>email = maskEmail e, displayName = or_undefined g\<rparr>"
proof (cases "e = []")
  case True
  then show ?thesis by (simp add: applyEmailPrivacy_def maskEmail_def)
next
  case False
  have "\<not> js_in (toLowerCase e) (case emailMappings cfg of None \<Rightarrow> Map.empty | Some m \<Rightarrow> m)"
    using assms by (simp add: js_in_def ownMapping_def split: option.splits)
  with False show ?thesis by (simp add: applyEmailPrivacy_def Let_def)
qed

text \<open>
  The \<open>email\<close> field is the masked address for every address that is not an own key:
  an inherited name holds no \<open>@\<close>, so masking leaves it as it is.
\<close>

lemma at_sign_toLowerCase: "CHR ''@'' \<in> set e \<Longrightarrow> CHR ''@'' \<in> set (toLowerCase e)"
proof -
  assume "CHR ''@'' \<in> set e"
  then have "toLowerCase_char CHR ''@'' \<in> set (toLowerCase e)"
    by (simp add: toLowerCase_def)
  moreover have "toLowerCase_char CHR ''@'' = CHR ''@''"
    by (simp add: toLowerCase_char_def)
  ultimately show ?thesis by simp
qed

lemma inherited_name_no_at_sign:
  "n \<in> set Object_prototype_names \<Longrightarrow> CHR ''@'' \<notin> set n"
  by (auto simp: Object_prototype_names_def)

lemma applyEmailPrivacy_unknown_email:
  assumes "ownMapping cfg (toLowerCase e) = None"
  shows "email (applyEmailPrivacy (Some e) g cfg) = maskEmail e"
proof (cases "toLowerCase e \<in> set Object_prototype_names")
  case False
  with assms show ?thesis by (simp add: applyEmailPrivacy_unknown)
next
  case True
  then have "CHR ''@'' \<notin> set e"
    using at_sign_toLowerCase inherited_name_no_at_sign by blast
  then have m: "maskEmail e = e" by (simp add: maskEmail_def str_includes_def)
  show ?thesis
  proof (cases "e = []")
    case True
    then show ?thesis by (simp add: applyEmailPrivacy_def maskEmail_def)
  next
    case False
    with True m show ?thesis by (simp add: applyEmailPrivacy_def Let_def js_in_def)
  qed
qed

section \<open>Facts about validateConfig\<close>

lemma is_object_iff: "is_object v \<longleftrightarrow> typeof_js v = ''object'' \<and> v \<noteq> JNull"
  by (cases v) (simp_all add: is_object_def)

lemma is_object_truthy: "is_object v \<longleftrightarrow> truthy v \<and> typeof_js v = ''object''"
  by (cases v) (simp_all add: is_object_def)

lemma lowered_entries_Nil: "lowered_entries [] = []"
  by (simp add: lowered_entries_def)

lemma lowered_entries_Cons:
  "lowered_entries ((k, name) # es) =
     (case name of JString s \<Rightarrow> [(toLowerCase k, s)] | _ \<Rightarrow> []) @ lowered_entries es"
  by (simp add: lowered_entries_def)

lemma lowered_entries_append:
  "lowered_entries (es1 @ es2) = lowered_entries es1 @ lowered_entries es2"
  by (simp add: lowered_entries_def)

lemma lowered_entries_keys:
  "(lk, v) \<in> set (lowered_entries es) \<Longrightarrow> \<exists>k. (k, JString v) \<in> set es \<and> lk = toLowerCase k"
  by (auto simp: lowered_entries_def split: json.splits)

lemma map_of_rev_Cons:
  "map_of (rev ((k, v) # es)) lk =
     (case map_of (rev es) lk of Some w \<Rightarrow> Some w | None \<Rightarrow> if lk = k then Some v else None)"
  by (simp add: map_add_def split: option.splits)

lemma js_set_apply:
  "js_set acc k v lk =
     (if k = ''__proto__'' then acc lk else if lk = k then Some v else acc lk)"
  by (simp add: js_set_def)

lemma fold_rebuild_gen:
  "fold (\<lambda>(k, name) acc. case name of JString s \<Rightarrow> js_set acc (toLowerCase k) s | _ \<Rightarrow> acc) es acc0 lk
   = (if lk = ''__proto__'' then acc0 lk
      else (case map_of (rev (lowered_entries es)) lk of Some v \<Rightarrow> Some v | None \<Rightarrow> acc0 lk))"
proof (induction es arbitrary: acc0)
  case Nil
  show ?case by (simp add: lowered_entries_Nil)
next
  case (Cons a es)
  obtain k name where a: "a = (k, name)" by (cases a)
  show ?case
  proof (cases name)
    case (JString s)
    have "fold (\<lambda>(k, name) acc. case name of JString s \<Rightarrow> js_set acc (toLowerCase k) s | _ \<Rightarrow> acc)
            (a # es) acc0 lk
          = fold (\<lambda>(k, name) acc. case name of JString s \<Rightarrow> js_set acc (toLowerCase k) s | _ \<Rightarrow> acc)
            es (js_set acc0 (toLowerCase k) s) lk"
      by (simp add: a JString)
    also have "\<dots> = (if lk = ''__proto__'' then js_set acc0 (toLowerCase k) s lk
      else (case map_of (rev (lowered_entries es)) lk of Some v \<Rightarrow> Some v
            | None \<Rightarrow> js_set acc0 (toLowerCase k) s lk))"
      by (rule Cons.IH)
    also have "\<dots> = (if lk = ''__proto__'' then acc0 lk
      else (case map_of (rev ((toLowerCase k, s) # lowered_entries es)) lk of
              Some v \<Rightarrow> Some v | None \<Rightarrow> acc0 lk))"
    proof (cases "lk = ''__proto__''")
      case True
      then show ?thesis unfolding js_set_apply by simp
    next
      case False
      show ?thesis
      proof (cases "map_of (rev (lowered_entries es)) lk")
        case None
        then show ?thesis
          unfolding js_set_apply map_of_rev_Cons using False by auto
      next
        case (Some w)
        then show ?thesis
          unfolding js_set_apply map_of_rev_Cons using False by simp
      qed
    qed
    also have "(toLowerCase k, s) # lowered_entries es = lowered_entries (a # es)"
      by (simp add: a JString lowered_entries_Cons)
    finally show ?thesis .
  qed (simp_all add: a lowered_entries_Cons Cons.IH)
qed

text \<open>
  What the loop leaves under a key: nothing under \<open>__proto__\<close>, and elsewhere the last
  string-valued entry whose key lowercases to it.
\<close>

lemma rebuildMappings_lookup:
  "rebuildMappings es lk =
     (if lk = ''__proto__'' then None else map_of (rev (lowered_entries es)) lk)"
  unfolding rebuildMappings_def fold_rebuild_gen by (simp split: option.splits)

lemma fold_rebuild_spec_gen:
  "fold (\<lambda>(k, name) acc. case name of JString s \<Rightarrow> acc(toLowerCase k \<mapsto> s) | _ \<Rightarrow> acc) es acc0 lk
   = (case map_of (rev (lowered_entries es)) lk of Some v \<Rightarrow> Some v | None \<Rightarrow> acc0 lk)"
proof (induction es arbitrary: acc0)
  case Nil
  show ?case by (simp add: lowered_entries_Nil)
next
  case (Cons a es)
  obtain k name where a: "a = (k, name)" by (cases a)
  show ?case
  proof (cases name)
    case (JString s)
    have "fold (\<lambda>(k, name) acc. case name of JString s \<Rightarrow> acc(toLowerCase k \<mapsto> s) | _ \<Rightarrow> acc)
            (a # es) acc0 lk
          = fold (\<lambda>(k, name) acc. case name of JString s \<Rightarrow> acc(toLowerCase k \<mapsto> s) | _ \<Rightarrow> acc)
            es (acc0(toLowerCase k \<mapsto> s)) lk"
      by (simp add: a JString)
    also have "\<dots> = (case map_of (rev (lowered_entries es)) lk of Some v \<Rightarrow> Some v
            | None \<Rightarrow> (acc0(toLowerCase k \<mapsto> s)) lk)"
      by (rule Cons.IH)
    also have "\<dots> = (case map_of (rev ((toLowerCase k, s) # lowered_entries es)) lk of
              Some v \<Rightarrow> Some v | None \<Rightarrow> acc0 lk)"
      unfolding map_of_rev_Cons by (cases "map_of (rev (lowered_entries es)) lk") simp_all
    also have "(toLowerCase k, s) # lowered_entries es = lowered_entries (a # es)"
      by (simp add: a JString lowered_entries_Cons)
    finally show ?thesis .
  qed (simp_all add: a lowered_entries_Cons Cons.IH)
qed

lemma rebuildMappings_spec_lookup:
  "rebuildMappings_spec es lk = map_of (rev (lowered_entries es)) lk"
  unfolding rebuildMappings_spec_def fold_rebuild_spec_gen by (simp split: option.splits)

lemma rebuildMappings_agree:
  assumes "\<forall>(k, name) \<in> set es. toLowerCase k \<noteq> ''__proto__''"
  shows "rebuildMappings es = rebuildMappings_spec es"
proof
  fix lk
  show "rebuildMappings es lk = rebuildMappings_spec es lk"
  proof (cases "lk = ''__proto__''")
    case True
    have "map_of (rev (lowered_entries es)) lk = None"
    proof (rule ccontr)
      assume "map_of (rev (lowered_entries es)) lk \<noteq> None"
      then obtain v where "map_of (rev (lowered_entries es)) lk = Some v" by auto
      then have "(lk, v) \<in> set (lowered_entries es)" by (auto dest: map_of_SomeD)
      then obtain k where "(k, JString v) \<in> set es" "lk = toLowerCase k"
        using lowered_entries_keys by blast
      with assms True show False by auto
    qed
    then show ?thesis by (simp add: rebuildMappings_lookup rebuildMappings_spec_lookup True)
  next
    case False
    then show ?thesis by (simp add: rebuildMappings_lookup rebuildMappings_spec_lookup)
  qed
qed

lemma rebuildMappings_last_wins:
  assumes "toLowerCase k \<noteq> ''__proto__''"
    and "\<forall>(k', name) \<in> set es2. toLowerCase k' = toLowerCase k \<longrightarrow> typeof_js name \<noteq> ''string''"
  shows "rebuildMappings (es1 @ (k, JString v) # es2) (toLowerCase k) = Some v"
proof -
  have n: "map_of (rev (lowered_entries es2)) (toLowerCase k) = None"
  proof (cases "map_of (rev (lowered_entries es2)) (toLowerCase k)")
    case (Some u)
    then have "(toLowerCase k, u) \<in> set (rev (lowered_entries es2))" by (rule map_of_SomeD)
    then have "(toLowerCase k, u) \<in> set (lowered_entries es2)" by simp
    then obtain k' where "(k', JString u) \<in> set es2" "toLowerCase k = toLowerCase k'"
      using lowered_entries_keys by blast
    with assms(2) show ?thesis by fastforce
  qed simp
  have "lowered_entries (es1 @ (k, JString v) # es2)
          = lowered_entries es1 @ (toLowerCase k, v) # lowered_entries es2"
    by (simp add: lowered_entries_append lowered_entries_Cons)
  then have "map_of (rev (lowered_entries (es1 @ (k, JString v) # es2))) (toLowerCase k) = Some v"
    using n by (simp add: map_add_def)
  with assms(1) show ?thesis by (simp add: rebuildMappings_lookup)
qed

lemma rebuildMappings_other_keys:
  "rebuildMappings es lk =
     rebuildMappings (filter (\<lambda>(k, name). toLowerCase k = lk) es) lk"
proof -
  have "map_of (rev (lowered_entries es)) lk =
          map_of (rev (lowered_entries (filter (\<lambda>(k, name). toLowerCase k = lk) es))) lk"
  proof (induction es)
    case Nil
    show ?case by simp
  next
    case (Cons a es)
    obtain k name where a: "a = (k, name)" by (cases a)
    show ?case
      using Cons unfolding a
      by (cases name) (simp_all add: lowered_entries_Cons map_add_def split: option.splits)
  qed
  then show ?thesis by (simp add: rebuildMappings_lookup)
qed

lemma rebuildMappings_keys_lowercase:
  assumes "rebuildMappings es k = Some v"
  shows "toLowerCase k = k"
proof -
  from assms have "map_of (rev (lowered_entries es)) k = Some v"
    by (simp add: rebuildMappings_lookup split: if_splits)
  then have "(k, v) \<in> set (rev (lowered_entries es))" by (rule map_of_SomeD)
  then have "(k, v) \<in> set (lowered_entries es)" by simp
  then obtain k' where "k = toLowerCase k'" using lowered_entries_keys by blast
  then show ?thesis by (simp add: toLowerCase_idem)
qed

lemma validateConfig_not_object:
  "\<not> is_object parsed \<Longrightarrow> validateConfig parsed = DEFAULT_PRIVACY_CONFIG"
  by (cases parsed) (simp_all add: validateConfig_def is_object_def)

lemma version_step:
  "version (case x of Some (JNumber n) \<Rightarrow> c\<lparr>version := Some n\<rparr> | _ \<Rightarrow> c)
     = (case x of Some (JNumber n) \<Rightarrow> Some n | _ \<Rightarrow> version c)"
  "emailMappings (case x of Some (JNumber n) \<Rightarrow> c\<lparr>version := Some n\<rparr> | _ \<Rightarrow> c) = emailMappings c"
  "defaultCalendarId (case x of Some (JNumber n) \<Rightarrow> c\<lparr>version := Some n\<rparr> | _ \<Rightarrow> c)
     = defaultCalendarId c"
  by (simp_all split: option.split json.split)

lemma mappings_step:
  "version (case x of Some m \<Rightarrow> if truthy m \<and> typeof_js m = ''object''
                                then c\<lparr>emailMappings := Some (f m)\<rparr> else c
            | None \<Rightarrow> c) = version c"
  "emailMappings (case x of Some m \<Rightarrow> if truthy m \<and> typeof_js m = ''object''
                                then c\<lparr>emailMappings := Some (f m)\<rparr> else c
            | None \<Rightarrow> c)
     = (case x of Some m \<Rightarrow> if is_object m then Some (f m) else emailMappings c
        | None \<Rightarrow> emailMappings c)"
  "defaultCalendarId (case x of Some m \<Rightarrow> if truthy m \<and> typeof_js m = ''object''
                                then c\<lparr>emailMappings := Some (f m)\<rparr> else c
            | None \<Rightarrow> c) = defaultCalendarId c"
  by (simp_all add: is_object_truthy split: option.split)

lemma calendar_step:
  "version (case x of Some (JString s) \<Rightarrow> if s \<noteq> [] then c\<lparr>defaultCalendarId := Some s\<rparr> else c
            | _ \<Rightarrow> c) = version c"
  "emailMappings (case x of Some (JString s) \<Rightarrow> if s \<noteq> [] then c\<lparr>defaultCalendarId := Some s\<rparr> else c
            | _ \<Rightarrow> c) = emailMappings c"
  "defaultCalendarId (case x of Some (JString s) \<Rightarrow> if s \<noteq> [] then c\<lparr>defaultCalendarId := Some s\<rparr> else c
            | _ \<Rightarrow> c)
     = (case x of Some (JString s) \<Rightarrow> if s \<noteq> [] then Some s else defaultCalendarId c
        | _ \<Rightarrow> defaultCalendarId c)"
  by (simp_all split: option.split json.split)

lemma validateConfig_unfold:
  assumes "is_object parsed"
  shows "validateConfig parsed =
     (let c0 = DEFAULT_PRIVACY_CONFIG;
          c1 = (case get_prop parsed ''version'' of
                  Some (JNumber n) \<Rightarrow> c0\<lparr>version := Some n\<rparr>
                | _ \<Rightarrow> c0);
          c2 = (case get_prop parsed ''emailMappings'' of
                  Some m \<Rightarrow>
                    if truthy m \<and> typeof_js m = ''object''
                    then c1\<lparr>emailMappings := Some (rebuildMappings (Object_entries m))\<rparr>
                    else c1
                | None \<Rightarrow> c1);
          c3 = (case get_prop parsed ''defaultCalendarId'' of
                  Some (JString s) \<Rightarrow> if s \<noteq> [] then c2\<lparr>defaultCalendarId := Some s\<rparr> else c2
                | _ \<Rightarrow> c2)
      in c3)"
proof -
  from assms have "typeof_js parsed = ''object''" and "parsed \<noteq> JNull"
    by (simp_all add: is_object_iff)
  then show ?thesis
    unfolding validateConfig_def by (simp only: simp_thms if_False)
qed

lemma DEFAULT_fields:
  "version DEFAULT_PRIVACY_CONFIG = Some 1"
  "emailMappings DEFAULT_PRIVACY_CONFIG = Some Map.empty"
  "defaultCalendarId DEFAULT_PRIVACY_CONFIG = None"
  by (simp_all add: DEFAULT_PRIVACY_CONFIG_def)

lemma validateConfig_version:
  assumes "is_object parsed"
  shows "version (validateConfig parsed) =
     (case get_prop parsed ''version'' of Some (JNumber n) \<Rightarrow> Some n | _ \<Rightarrow> Some 1)"
  unfolding validateConfig_unfold [OF assms] Let_def calendar_step mappings_step version_step
    DEFAULT_fields
  by (rule refl)

lemma validateConfig_emailMappings:
  assumes "is_object parsed"
  shows "emailMappings (validateConfig parsed) =
     (case get_prop parsed ''emailMappings'' of
        Some m \<Rightarrow> if is_object m then Some (rebuildMappings (Object_entries m)) else Some Map.empty
      | None \<Rightarrow> Some Map.empty)"
  unfolding validateConfig_unfold [OF assms] Let_def calendar_step mappings_step version_step
    DEFAULT_fields
  by (rule refl)

lemma validateConfig_defaultCalendarId:
  assumes "is_object parsed"
  shows "defaultCalendarId (validateConfig parsed) =
     (case get_prop parsed ''defaultCalendarId'' of
        Some (JString s) \<Rightarrow> if s \<noteq> [] then Some s else None
      | _ \<Rightarrow> None)"
  unfolding validateConfig_unfold [OF assms] Let_def calendar_step mappings_step version_step
    DEFAULT_fields
  by (rule refl)

lemma validateConfig_spec_fields:
  assumes "is_object parsed"
  shows "version (validateConfig_spec parsed) =
           (case get_prop parsed ''version'' of Some (JNumber n) \<Rightarrow> Some n | _ \<Rightarrow> Some 1)"
    and "emailMappings (validateConfig_spec parsed) =
           (case get_prop parsed ''emailMappings'' of
              Some m \<Rightarrow> if is_object m then Some (rebuildMappings_spec (Object_entries m))
                        else Some Map.empty
            | None \<Rightarrow> Some Map.empty)"
    and "defaultCalendarId (validateConfig_spec parsed) =
           (case get_prop parsed ''defaultCalendarId'' of
              Some (JString s) \<Rightarrow> if s \<noteq> [] then Some s else None
            | _ \<Rightarrow> None)"
  unfolding validateConfig_spec_def DEFAULT_fields using assms by simp_all

text \<open>
  The code validates as the specification words it on every input whose mappings have no
  key that lowercases to \<open>__proto__\<close>.
\<close>

lemma validateConfig_agree:
  assumes "\<forall>m. get_prop parsed ''emailMappings'' = Some m \<longrightarrow>
             (\<forall>(k, name) \<in> set (Object_entries m). toLowerCase k \<noteq> ''__proto__'')"
  shows "validateConfig parsed = validateConfig_spec parsed"
proof (cases "is_object parsed")
  case False
  then show ?thesis
    by (simp add: validateConfig_not_object validateConfig_spec_def)
next
  case True
  have r: "rebuildMappings (Object_entries m) = rebuildMappings_spec (Object_entries m)"
    if "get_prop parsed ''emailMappings'' = Some m" for m
    using assms that by (intro rebuildMappings_agree) simp
  have v: "version (validateConfig parsed) = version (validateConfig_spec parsed)"
    unfolding validateConfig_version [OF True] validateConfig_spec_fields [OF True]
    by (rule refl)
  have d: "defaultCalendarId (validateConfig parsed) = defaultCalendarId (validateConfig_spec parsed)"
    unfolding validateConfig_defaultCalendarId [OF True] validateConfig_spec_fields [OF True]
    by (rule refl)
  have m: "emailMappings (validateConfig parsed) = emailMappings (validateConfig_spec parsed)"
    unfolding validateConfig_emailMappings [OF True] validateConfig_spec_fields [OF True]
    using r by (simp split: option.split)
  show ?thesis
    using v d m by (intro PrivacyConfig.equality) simp_all
qed

lemma digit_chars: "n < 10 \<Longrightarrow> digit n \<in> set ''0123456789''"
  unfolding digit_def by (rule nth_mem) simp

lemma showNat_digits: "c \<in> set (showNat n) \<Longrightarrow> c \<in> set ''0123456789''"
proof (induction n rule: showNat.induct)
  case (1 n)
  show ?case
  proof (cases "n < 10")
    case True
    with "1.prems" have "c = digit n" by (simp add: showNat.simps [of n])
    with True show ?thesis using digit_chars by blast
  next
    case False
    with "1.prems" have "c = digit (n mod 10) \<or> c \<in> set (showNat (n div 10))"
      by (simp add: showNat.simps [of n])
    then show ?thesis
    proof
      assume "c \<in> set (showNat (n div 10))"
      with "1.IH" False show ?thesis by blast
    next
      assume "c = digit (n mod 10)"
      moreover have "digit (n mod 10) \<in> set ''0123456789''"
        by (rule digit_chars) simp
      ultimately show ?thesis by blast
    qed
  qed
qed

lemma array_index_names:
  assumes "map_of (zip (map showNat [0..<length xs]) xs) name = Some v"
  shows "set name \<subseteq> set ''0123456789''"
proof -
  from assms have "(name, v) \<in> set (zip (map showNat [0..<length xs]) xs)"
    by (rule map_of_SomeD)
  then have "name \<in> set (map showNat [0..<length xs])" by (rule set_zip_leftD)
  then obtain i where "name = showNat i" by auto
  then show ?thesis using showNat_digits by blast
qed

lemma array_no_letter_index:
  assumes "CHR ''e'' \<in> set name"
  shows "map_of (zip (map showNat [0..<length xs]) xs) name = None"
proof (cases "map_of (zip (map showNat [0..<length xs]) xs) name")
  case None
  then show ?thesis .
next
  case (Some v)
  then have "set name \<subseteq> set ''0123456789''" by (rule array_index_names)
  with assms have "CHR ''e'' \<in> set ''0123456789''" by blast
  then show ?thesis by simp
qed

lemma array_no_config_fields:
  "get_prop (JArray xs) ''version'' = None"
  "get_prop (JArray xs) ''emailMappings'' = None"
  "get_prop (JArray xs) ''defaultCalendarId'' = None"
  by (simp_all add: array_no_letter_index)

lemma validateConfig_array: "validateConfig (JArray xs) = DEFAULT_PRIVACY_CONFIG"
proof -
  have o: "is_object (JArray xs)" by (simp add: is_object_def)
  have "version (validateConfig (JArray xs)) = Some 1"
    unfolding validateConfig_version [OF o] array_no_config_fields by simp
  moreover have "emailMappings (validateConfig (JArray xs)) = Some Map.empty"
    unfolding validateConfig_emailMappings [OF o] array_no_config_fields by simp
  moreover have "defaultCalendarId (validateConfig (JArray xs)) = None"
    unfolding validateConfig_defaultCalendarId [OF o] array_no_config_fields by simp
  ultimately show ?thesis
    by (intro PrivacyConfig.equality) (simp_all add: DEFAULT_fields)
qed

lemma validateConfig_not_JObject:
  "\<not> is_JObject parsed \<Longrightarrow> validateConfig parsed = DEFAULT_PRIVACY_CONFIG"
proof (cases parsed)
  case (JArray xs)
  then show ?thesis by (simp only: validateConfig_array)
qed (simp_all add: is_JObject_def validateConfig_def)

lemma wellFormed_DEFAULT: "wellFormed DEFAULT_PRIVACY_CONFIG"
  by (simp add: wellFormed_def ownMapping_def DEFAULT_fields)

lemma wellFormed_validateConfig: "wellFormed (validateConfig parsed)"
proof (cases "is_object parsed")
  case False
  then show ?thesis by (simp add: validateConfig_not_object wellFormed_DEFAULT)
next
  case True
  have v: "version (validateConfig parsed) \<noteq> None"
    unfolding validateConfig_version [OF True] by (simp split: option.split json.split)
  have m: "emailMappings (validateConfig parsed) \<noteq> None"
    unfolding validateConfig_emailMappings [OF True] by (simp split: option.split)
  have k: "toLowerCase k = k" if "ownMapping (validateConfig parsed) k = Some v" for k v
    using that unfolding ownMapping_def validateConfig_emailMappings [OF True]
    by (auto split: option.splits if_splits dest: rebuildMappings_keys_lowercase)
  show ?thesis unfolding wellFormed_def using v m k by blast
qed

lemma validateConfig_sample_file:
  "version (validateConfig sample_file) = Some 2"
  "ownMapping (validateConfig sample_file) ''john@example.com'' = Some ''John Smith''"
  "ownMapping (validateConfig sample_file) ''jane@company.org'' = Some ''Jane Doe''"
  "ownMapping (validateConfig sample_file) ''invalid@example.com'' = None"
  "ownMapping (validateConfig sample_file) ''JOHN@EXAMPLE.COM'' = None"
  "defaultCalendarId (validateConfig sample_file) = Some ''work@gmail.com''"
proof -
  have o: "is_object sample_file" by (simp add: sample_file_def is_object_def)
  show "version (validateConfig sample_file) = Some 2"
    unfolding validateConfig_version [OF o] by (simp add: sample_file_def)
  show "defaultCalendarId (validateConfig sample_file) = Some ''work@gmail.com''"
    unfolding validateConfig_defaultCalendarId [OF o] by (simp add: sample_file_def)
  have m: "emailMappings (validateConfig sample_file) =
             Some (rebuildMappings [(''JOHN@EXAMPLE.COM'', JString ''John Smith''),
                          (''Jane@Company.Org'', JString ''Jane Doe''),
                          (''invalid@example.com'', JNumber 123)])"
    unfolding validateConfig_emailMappings [OF o] by (simp add: sample_file_def is_object_def)
  show "ownMapping (validateConfig sample_file) ''john@example.com'' = Some ''John Smith''"
    "ownMapping (validateConfig sample_file) ''jane@company.org'' = Some ''Jane Doe''"
    "ownMapping (validateConfig sample_file) ''invalid@example.com'' = None"
    "ownMapping (validateConfig sample_file) ''JOHN@EXAMPLE.COM'' = None"
    unfolding ownMapping_def m
    by (simp_all add: rebuildMappings_def js_set_def toLowerCase_samples)
qed

section \<open>Facts about the loader\<close>

lemma loadConfig_fresh:
  "is_fresh l (now_start w) \<Longrightarrow>
   loadConfig w l = Resolved \<lparr>returned = the (config l), loader = l, fileReads = [], warnings = []\<rparr>"
  by (simp add: loadConfig_def)

lemma loadConfig_reload:
  assumes "\<not> is_fresh l (now_start w)"
  shows "\<exists>c ws. loadConfig w l =
           Resolved \<lparr>returned = c, loader = l\<lparr>config := Some c, lastLoadTime := now_end w\<rparr>,
                     fileReads = [configPath l], warnings = ws\<rparr>
         \<and> c = (case try_load w l of Inr c' \<Rightarrow> c' | Inl err \<Rightarrow> DEFAULT_PRIVACY_CONFIG)"
  using assms by (cases "try_load w l") (simp_all add: loadConfig_def)

lemma loadConfig_resolves: "\<exists>out. loadConfig w l = Resolved out"
proof (cases "is_fresh l (now_start w)")
  case True
  then show ?thesis by (simp add: loadConfig_fresh)
next
  case False
  from loadConfig_reload [OF False] show ?thesis by blast
qed

lemma try_load_failures:
  "fs_readFile w (configPath l) = Inl err \<Longrightarrow> try_load w l = Inl err"
  "fs_readFile w (configPath l) = Inr content \<Longrightarrow> JSON_parse w content = None \<Longrightarrow>
     try_load w l = Inl SyntaxError"
  "fs_readFile w (configPath l) = Inr content \<Longrightarrow> JSON_parse w content = Some parsed \<Longrightarrow>
     try_load w l = Inr (validateConfig parsed)"
  by (simp_all add: try_load_def)

lemma resolvedConfig_reload:
  assumes "\<not> is_fresh l (now_start w)"
  shows "resolvedConfig (loadConfig w l) =
           Some (case try_load w l of Inr c' \<Rightarrow> c' | Inl err \<Rightarrow> DEFAULT_PRIVACY_CONFIG)"
  using loadConfig_reload [OF assms] by (auto simp: resolvedConfig_def)

lemma try_load_wellFormed: "try_load w l = Inr c \<Longrightarrow> wellFormed c"
  by (auto simp: try_load_def wellFormed_validateConfig split: sum.splits option.splits)

lemma loadConfig_wellFormed:
  assumes inv: "\<forall>c. config l = Some c \<longrightarrow> wellFormed c"
    and out: "loadConfig w l = Resolved out"
  shows "wellFormed (returned out) \<and> (\<forall>c. config (loader out) = Some c \<longrightarrow> wellFormed c)"
proof (cases "is_fresh l (now_start w)")
  case True
  then obtain c where c: "config l = Some c" by (auto simp: is_fresh_def)
  from True out have "out = \<lparr>returned = the (config l), loader = l, fileReads = [], warnings = []\<rparr>"
    by (simp add: loadConfig_fresh)
  with c inv show ?thesis by simp
next
  case False
  from loadConfig_reload [OF False] out obtain c ws where
    o: "out = \<lparr>returned = c, loader = l\<lparr>config := Some c, lastLoadTime := now_end w\<rparr>,
                fileReads = [configPath l], warnings = ws\<rparr>"
    and c: "c = (case try_load w l of Inr c' \<Rightarrow> c' | Inl err \<Rightarrow> DEFAULT_PRIVACY_CONFIG)"
    by auto
  have "wellFormed c"
    unfolding c by (cases "try_load w l") (simp_all add: wellFormed_DEFAULT try_load_wellFormed)
  with o show ?thesis by simp
qed

lemma run_wellFormed:
  assumes "\<forall>c. config l = Some c \<longrightarrow> wellFormed c" and "out \<in> set (run l calls)"
  shows "wellFormed (returned out)"
  using assms
proof (induction calls arbitrary: l)
  case Nil
  then show ?case by simp
next
  case (Cons a calls)
  show ?case
  proof (cases a)
    case InvalidateCache
    have "\<forall>c. config (invalidateCache l) = Some c \<longrightarrow> wellFormed c"
      by (simp add: invalidateCache_def)
    moreover from Cons.prems(2) InvalidateCache have "out \<in> set (run (invalidateCache l) calls)"
      by simp
    ultimately show ?thesis by (rule Cons.IH)
  next
    case (LoadConfig w)
    obtain o1 where o1: "loadConfig w l = Resolved o1" using loadConfig_resolves by blast
    from loadConfig_wellFormed [OF Cons.prems(1) o1]
    have g: "wellFormed (returned o1)" and i: "\<forall>c. config (loader o1) = Some c \<longrightarrow> wellFormed c"
      by simp_all
    from Cons.prems(2) LoadConfig o1 have "out = o1 \<or> out \<in> set (run (loader o1) calls)"
      by simp
    then show ?thesis
    proof
      assume "out = o1" with g show ?thesis by simp
    next
      assume "out \<in> set (run (loader o1) calls)"
      with i show ?thesis by (rule Cons.IH)
    qed
  qed
qed

lemma returnedConfigs_wellFormed:
  assumes "c \<in> set (returnedConfigs (new_PrivacyConfigLoader rt) calls)"
  shows "wellFormed c"
proof -
  from assms obtain out where "out \<in> set (run (new_PrivacyConfigLoader rt) calls)" "c = returned out"
    by (auto simp: returnedConfigs_def)
  moreover have "\<forall>c. config (new_PrivacyConfigLoader rt) = Some c \<longrightarrow> wellFormed c"
    by (simp add: new_PrivacyConfigLoader_def)
  ultimately show ?thesis using run_wellFormed by blast
qed

lemma run_all_fresh:
  assumes "config l = Some c" and "\<forall>w' \<in> set ws. now_start w' < lastLoadTime l + CACHE_TTL"
  shows "run l (map LoadConfig ws) =
           replicate (length ws) \<lparr>returned = c, loader = l, fileReads = [], warnings = []\<rparr>"
  using assms(2)
proof (induction ws)
  case Nil
  show ?case by simp
next
  case (Cons w ws)
  then have "is_fresh l (now_start w)" using assms(1) by (simp add: is_fresh_def)
  then have "loadConfig w l = Resolved \<lparr>returned = c, loader = l, fileReads = [], warnings = []\<rparr>"
    using assms(1) by (simp add: loadConfig_fresh)
  with Cons show ?case by simp
qed

lemma io_with_simps:
  "now_start (io_with t0 t1 file parsed) = t0"
  "now_end (io_with t0 t1 file parsed) = t1"
  "fs_readFile (io_with t0 t1 file parsed) p = file"
  "JSON_parse (io_with t0 t1 file parsed) s = parsed"
  "NODE_ENV (io_with t0 t1 file parsed) = Some ''test''"
  by (simp_all add: io_with_def)

lemma missing_file_simps:
  "now_start (missing_file t0 t1) = t0" "now_end (missing_file t0 t1) = t1"
  by (simp_all add: missing_file_def io_with_simps)

lemma load_loaded_at:
  "loadConfig (missing_file t0 t1) (loaded_at p t) =
     (if t0 - t < CACHE_TTL
      then Resolved \<lparr>returned = DEFAULT_PRIVACY_CONFIG, loader = loaded_at p t,
                     fileReads = [], warnings = []\<rparr>
      else Resolved \<lparr>returned = DEFAULT_PRIVACY_CONFIG, loader = loaded_at p t1,
                     fileReads = [p], warnings = []\<rparr>)"
  by (simp add: loadConfig_def try_load_def missing_file_def io_with_simps is_fresh_def
      loaded_at_def)

lemma load_fresh_loader:
  "loadConfig (missing_file t0 t1) (fresh_loader p) =
     Resolved \<lparr>returned = DEFAULT_PRIVACY_CONFIG, loader = loaded_at p t1,
               fileReads = [p], warnings = []\<rparr>"
  by (simp add: loadConfig_def try_load_def missing_file_def io_with_simps is_fresh_def
      loaded_at_def fresh_loader_def)

lemma first_load:
  "returnedConfigs (new_PrivacyConfigLoader rt) [LoadConfig (io_with t0 t1 (Inr text) (Some parsed))]
     = [validateConfig parsed]"
  by (simp add: returnedConfigs_def loadConfig_def is_fresh_def new_PrivacyConfigLoader_def
      try_load_def io_with_simps)

lemma first_load_missing:
  "returnedConfigs (new_PrivacyConfigLoader rt) [LoadConfig (io_with t0 t1 (Inl err) None)]
     = [DEFAULT_PRIVACY_CONFIG]"
  by (simp add: returnedConfigs_def loadConfig_def is_fresh_def new_PrivacyConfigLoader_def
      try_load_def io_with_simps)

section \<open>Facts about the POSIX path functions\<close>

lemma posix_runtime_simps:
  "process_env (posix_runtime e cwd home) = e"
  "path_resolve (posix_runtime e cwd home) = posix_resolve cwd"
  "path_join (posix_runtime e cwd home) = posix_join"
  "os_homedir (posix_runtime e cwd home) = home"
  by (simp_all add: posix_runtime_def)

lemma posix_samples:
  "posix_resolve ''/srv/app'' ''/custom/path/config.json'' = ''/custom/path/config.json''"
  "posix_resolve ''/srv/app'' [] = ''/srv/app''"
  "posix_join [''/home/user/.myconfig'', ''stella2211-google-calendar-mcp'', ''config.json'']
     = ''/home/user/.myconfig/stella2211-google-calendar-mcp/config.json''"
  "posix_join [posix_join [''/home/user'', ''.config''], ''stella2211-google-calendar-mcp'',
               ''config.json'']
     = ''/home/user/.config/stella2211-google-calendar-mcp/config.json''"
  by code_simp+

section \<open>Claims\<close>

subsection \<open>C1: an address that is not in the mappings\<close>

text \<open>
  C1 says that every address that is not a key of \<open>emailMappings\<close> (after lowercasing)
  comes back masked by \<open>maskEmail\<close>, with the external display name when one was given
  and no display name otherwise. The code tests the key with \<open>in\<close>, which also finds the
  names a plain object inherits. For the address \<open>constructor\<close> and the default config,
  whose mappings are empty, the code takes the branch for known contacts: the address
  comes back as it is (which is also its masked form, as it has no \<open>@\<close>), and the display
  name is the inherited member of that name instead of the external name \<open>Bob\<close>.
  \<open>applyEmailPrivacy_unknown\<close> above is the claim for every address that is not an
  inherited name, and \<open>applyEmailPrivacy_unknown_email\<close> its half about the \<open>email\<close>
  field for every address.
\<close>

theorem applyEmailPrivacy_inherited_name:
  "ownMapping DEFAULT_PRIVACY_CONFIG (toLowerCase ''constructor'') = None
   \<and> applyEmailPrivacy (Some ''constructor'') (Some ''Bob'') DEFAULT_PRIVACY_CONFIG
       = \<lparr>email = ''constructor'', displayName = Some (Inherited ''constructor'')\<rparr>
   \<and> maskEmail ''constructor'' = ''constructor''
   \<and> or_undefined (Some ''Bob'') = Some (Str ''Bob'')"
  by (simp add: applyEmailPrivacy_def DEFAULT_PRIVACY_CONFIG_def toLowerCase_samples
      js_in_def js_get_def Object_prototype_names_def or_undefined_def Let_def
      ownMapping_def maskEmail_def str_includes_def)

subsection \<open>C2: loadConfig absorbs every failure\<close>

text \<open>
  C2: a call of \<open>loadConfig\<close> never rejects; it always delivers a config. When the cache
  is not fresh, so that the file is read, the config delivered is the default config in
  every failure case: the read fails (a missing file, or any other error), the text is
  not JSON, or the JSON value is not an object (\<open>null\<close>, a boolean, a number, a string or
  an array).
\<close>

theorem loadConfig_absorbs_failures:
  "resolvedConfig (loadConfig w l) \<noteq> None
   \<and> (\<not> is_fresh l (now_start w) \<longrightarrow>
        (\<forall>err. fs_readFile w (configPath l) = Inl err \<longrightarrow>
           resolvedConfig (loadConfig w l) = Some DEFAULT_PRIVACY_CONFIG)
      \<and> (\<forall>content. fs_readFile w (configPath l) = Inr content \<and> JSON_parse w content = None \<longrightarrow>
           resolvedConfig (loadConfig w l) = Some DEFAULT_PRIVACY_CONFIG)
      \<and> (\<forall>content parsed.
           fs_readFile w (configPath l) = Inr content \<and> JSON_parse w content = Some parsed
           \<and> \<not> is_JObject parsed \<longrightarrow>
           resolvedConfig (loadConfig w l) = Some DEFAULT_PRIVACY_CONFIG))"
proof (intro conjI impI allI)
  show "resolvedConfig (loadConfig w l) \<noteq> None"
    using loadConfig_resolves [of w l] by (auto simp: resolvedConfig_def)
next
  fix err
  assume "\<not> is_fresh l (now_start w)" and "fs_readFile w (configPath l) = Inl err"
  then show "resolvedConfig (loadConfig w l) = Some DEFAULT_PRIVACY_CONFIG"
    by (simp add: resolvedConfig_reload try_load_failures)
next
  fix content
  assume "\<not> is_fresh l (now_start w)"
    and "fs_readFile w (configPath l) = Inr content \<and> JSON_parse w content = None"
  then show "resolvedConfig (loadConfig w l) = Some DEFAULT_PRIVACY_CONFIG"
    by (simp add: resolvedConfig_reload try_load_failures)
next
  fix content parsed
  assume "\<not> is_fresh l (now_start w)"
    and "fs_readFile w (configPath l) = Inr content \<and> JSON_parse w content = Some parsed
         \<and> \<not> is_JObject parsed"
  then show "resolvedConfig (loadConfig w l) = Some DEFAULT_PRIVACY_CONFIG"
    by (simp add: resolvedConfig_reload try_load_failures validateConfig_not_JObject)
qed

theorem loadConfig_absorbs_failures_witness:
  "\<not> is_fresh (fresh_loader ''/etc/privacy.json'') 100
   \<and> resolvedConfig (loadConfig (io_with 100 105 (Inl (ErrnoException ''ENOENT'')) None)
        (fresh_loader ''/etc/privacy.json'')) = Some DEFAULT_PRIVACY_CONFIG
   \<and> resolvedConfig (loadConfig (io_with 100 105 (Inl (ErrnoException ''EACCES'')) None)
        (fresh_loader ''/etc/privacy.json'')) = Some DEFAULT_PRIVACY_CONFIG
   \<and> resolvedConfig (loadConfig (io_with 100 105 (Inr ''{ invalid json }'') None)
        (fresh_loader ''/etc/privacy.json'')) = Some DEFAULT_PRIVACY_CONFIG
   \<and> resolvedConfig (loadConfig (io_with 100 105 (Inr ''42'') (Some (JNumber 42)))
        (fresh_loader ''/etc/privacy.json'')) = Some DEFAULT_PRIVACY_CONFIG
   \<and> resolvedConfig (loadConfig (io_with 100 105 (Inr ''[1]'') (Some (JArray [JNumber 1])))
        (fresh_loader ''/etc/privacy.json'')) = Some DEFAULT_PRIVACY_CONFIG"
proof -
  have f: "\<not> is_fresh (fresh_loader ''/etc/privacy.json'') 100"
    by (simp add: is_fresh_def fresh_loader_def)
  have a: "resolvedConfig (loadConfig (io_with 100 105 (Inl (ErrnoException ''ENOENT'')) None)
        (fresh_loader ''/etc/privacy.json'')) = Some DEFAULT_PRIVACY_CONFIG"
    using f loadConfig_absorbs_failures
      [of "io_with 100 105 (Inl (ErrnoException ''ENOENT'')) None"
          "fresh_loader ''/etc/privacy.json''"]
    by (simp add: io_with_simps)
  have b: "resolvedConfig (loadConfig (io_with 100 105 (Inl (ErrnoException ''EACCES'')) None)
        (fresh_loader ''/etc/privacy.json'')) = Some DEFAULT_PRIVACY_CONFIG"
    using f loadConfig_absorbs_failures
      [of "io_with 100 105 (Inl (ErrnoException ''EACCES'')) None"
          "fresh_loader ''/etc/privacy.json''"]
    by (simp add: io_with_simps)
  have c: "resolvedConfig (loadConfig (io_with 100 105 (Inr ''{ invalid json }'') None)
        (fresh_loader ''/etc/privacy.json'')) = Some DEFAULT_PRIVACY_CONFIG"
    using f loadConfig_absorbs_failures
      [of "io_with 100 105 (Inr ''{ invalid json }'') None" "fresh_loader ''/etc/privacy.json''"]
    by (simp add: io_with_simps)
  have d: "resolvedConfig (loadConfig (io_with 100 105 (Inr ''42'') (Some (JNumber 42)))
        (fresh_loader ''/etc/privacy.json'')) = Some DEFAULT_PRIVACY_CONFIG"
    using f loadConfig_absorbs_failures
      [of "io_with 100 105 (Inr ''42'') (Some (JNumber 42))" "fresh_loader ''/etc/privacy.json''"]
    by (simp add: io_with_simps is_JObject_def)
  have e: "resolvedConfig (loadConfig (io_with 100 105 (Inr ''[1]'') (Some (JArray [JNumber 1])))
        (fresh_loader ''/etc/privacy.json'')) = Some DEFAULT_PRIVACY_CONFIG"
    using f loadConfig_absorbs_failures
      [of "io_with 100 105 (Inr ''[1]'') (Some (JArray [JNumber 1]))"
          "fresh_loader ''/etc/privacy.json''"]
    by (simp add: io_with_simps is_JObject_def)
  show ?thesis using f a b c d e by simp
qed

subsection \<open>C3: an address that is in the mappings\<close>

text \<open>
  C3, amended: for every non-empty address whose lowercased form is an own key of
  \<open>emailMappings\<close>, and for every external display name, given or not, the result holds
  the address exactly as it was passed in and the mapped name as its display name.
\<close>

theorem applyEmailPrivacy_known:
  assumes "e \<noteq> []" and "ownMapping cfg (toLowerCase e) = Some v"
  shows "applyEmailPrivacy (Some e) g cfg = \<lparr>email = e, displayName = Some (Str v)\<rparr>"
  using assms
  by (auto simp: applyEmailPrivacy_def Let_def js_in_def js_get_def ownMapping_def
      split: option.splits)

theorem applyEmailPrivacy_known_witness:
  "ownMapping
     \<lparr>version = None, emailMappings = Some [''known@example.com'' \<mapsto> ''Known Person''],
      defaultCalendarId = None\<rparr>
     (toLowerCase ''KNOWN@EXAMPLE.COM'') = Some ''Known Person''
   \<and> applyEmailPrivacy (Some ''KNOWN@EXAMPLE.COM'') (Some ''Google Display Name'')
       \<lparr>version = None, emailMappings = Some [''known@example.com'' \<mapsto> ''Known Person''],
        defaultCalendarId = None\<rparr>
     = \<lparr>email = ''KNOWN@EXAMPLE.COM'', displayName = Some (Str ''Known Person'')\<rparr>"
proof -
  have n: "''KNOWN@EXAMPLE.COM'' \<noteq> []" by simp
  have k: "ownMapping
     \<lparr>version = None, emailMappings = Some [''known@example.com'' \<mapsto> ''Known Person''],
      defaultCalendarId = None\<rparr>
     (toLowerCase ''KNOWN@EXAMPLE.COM'') = Some ''Known Person''"
    by (simp add: ownMapping_def toLowerCase_samples)
  from applyEmailPrivacy_known [OF n k] k show ?thesis by simp
qed

text \<open>
  The claim as it stands fails for the empty address: with \<open>""\<close> as a key of the
  mappings, the guard for an absent address answers first, and the display name is the
  external one.
\<close>

theorem applyEmailPrivacy_empty_key_counterexample:
  "ownMapping
     \<lparr>version = None, emailMappings = Some [[] \<mapsto> ''Nobody''], defaultCalendarId = None\<rparr>
     (toLowerCase []) = Some ''Nobody''
   \<and> applyEmailPrivacy (Some []) (Some ''Bob'')
       \<lparr>version = None, emailMappings = Some [[] \<mapsto> ''Nobody''], defaultCalendarId = None\<rparr>
     = \<lparr>email = [], displayName = Some (Str ''Bob'')\<rparr>
   \<and> displayName
       (applyEmailPrivacy (Some []) (Some ''Bob'')
          \<lparr>version = None, emailMappings = Some [[] \<mapsto> ''Nobody''],
           defaultCalendarId = None\<rparr>)
     \<noteq> Some (Str ''Nobody'')"
  by (simp add: applyEmailPrivacy_def or_undefined_def toLowerCase_def ownMapping_def)

subsection \<open>C4: maskEmail\<close>

text \<open>
  C4: \<open>maskEmail\<close> is defined on every string. An empty input or one without \<open>@\<close> comes
  back unchanged (the empty string for the empty input). Any other input splits at its
  first \<open>@\<close> into a local part and a domain, and the result is \<open>***@\<close> followed by the
  domain when the local part is empty, and the first character of the local part followed
  by \<open>***@\<close> and the domain otherwise.
\<close>

theorem maskEmail_total_cases:
  "maskEmail [] = []
   \<and> (CHR ''@'' \<notin> set addr \<longrightarrow> maskEmail addr = addr)
   \<and> (\<forall>l d. addr = l @ CHR ''@'' # d \<and> CHR ''@'' \<notin> set l \<longrightarrow>
        maskEmail addr = (if l = [] then ''***@'' @ d else hd l # ''***@'' @ d))"
proof (intro conjI allI impI)
  show "maskEmail [] = []" by (simp add: maskEmail_def)
next
  assume "CHR ''@'' \<notin> set addr"
  then show "maskEmail addr = addr" by (simp add: maskEmail_def str_includes_def)
next
  fix l d
  assume "addr = l @ CHR ''@'' # d \<and> CHR ''@'' \<notin> set l"
  then show "maskEmail addr = (if l = [] then ''***@'' @ d else hd l # ''***@'' @ d)"
    using maskEmail_split [of l d] by simp
qed

theorem maskEmail_total_cases_witness:
  "maskEmail [] = []
   \<and> maskEmail ''notanemail'' = ''notanemail''
   \<and> maskEmail ''john.doe@example.com'' = ''j***@example.com''
   \<and> maskEmail ''@example.com'' = ''***@example.com''
   \<and> maskEmail ''a@b@c'' = ''a***@b@c''"
proof -
  have a: "maskEmail ''notanemail'' = ''notanemail''"
    using maskEmail_total_cases [of "''notanemail''"] by simp
  have b: "maskEmail ''john.doe@example.com'' = ''j***@example.com''"
    using maskEmail_total_cases [of "''john.doe@example.com''"]
    by (elim conjE allE [of _ "''john.doe''"] allE [of _ "''example.com''"]) simp
  have c: "maskEmail ''@example.com'' = ''***@example.com''"
    using maskEmail_total_cases [of "''@example.com''"]
    by (elim conjE allE [of _ "[]"] allE [of _ "''example.com''"]) simp
  have d: "maskEmail ''a@b@c'' = ''a***@b@c''"
    using maskEmail_total_cases [of "''a@b@c''"]
    by (elim conjE allE [of _ "''a''"] allE [of _ "''b@c''"]) simp
  show ?thesis using maskEmail_total_cases [of "[]"] a b c d by simp
qed

subsection \<open>C5: validateConfig\<close>

text \<open>
  C5 describes \<open>validateConfig\<close>: the default config for a value that is not a non-null
  object; otherwise the default config with \<open>version\<close> replaced by a number,
  \<open>emailMappings\<close> replaced by the rebuilt mappings of an object (keys lowercased,
  entries that are not strings dropped) and \<open>defaultCalendarId\<close> replaced by a non-empty
  string. \<open>validateConfig_spec\<close> is that description, and \<open>validateConfig_agree\<close> above
  shows that the code follows it on every input with no key that lowercases to
  \<open>__proto__\<close>. On this input the code differs: the entry has a string value, yet the
  code stores nothing and returns the default config, where the description keeps the
  entry.
\<close>

theorem validateConfig_drops_proto_key:
  "validateConfig
     (JObject [(''emailMappings'', JObject [(''__proto__'', JString ''Known Person'')])])
   = DEFAULT_PRIVACY_CONFIG
   \<and> ownMapping
       (validateConfig_spec
          (JObject [(''emailMappings'', JObject [(''__proto__'', JString ''Known Person'')])]))
       ''__proto__'' = Some ''Known Person''"
  by (simp add: validateConfig_def validateConfig_spec_def is_object_def rebuildMappings_def
      rebuildMappings_spec_def js_set_def toLowerCase_samples ownMapping_def
      DEFAULT_PRIVACY_CONFIG_def)

subsection \<open>C6: the keys of every returned config are lowercase\<close>

text \<open>
  C6: whatever calls a new loader has served, \<open>loadConfig\<close> and \<open>invalidateCache\<close> in any
  order and with any file contents, every key of the mappings of every config that
  \<open>loadConfig\<close> returned is lowercase: lowercasing leaves it unchanged.
\<close>

theorem returned_keys_lowercase:
  assumes "c \<in> set (returnedConfigs (new_PrivacyConfigLoader rt) calls)"
    and "ownMapping c k = Some v"
  shows "toLowerCase k = k"
  using returnedConfigs_wellFormed [OF assms(1)] assms(2) by (simp add: wellFormed_def)

theorem returned_keys_lowercase_witness:
  "validateConfig sample_file
     \<in> set (returnedConfigs (new_PrivacyConfigLoader sample_runtime)
              [LoadConfig (io_with 100 105 (Inr ''(the text of the file)'') (Some sample_file))])
   \<and> ownMapping (validateConfig sample_file) ''john@example.com'' = Some ''John Smith''
   \<and> toLowerCase ''john@example.com'' = ''john@example.com''"
proof -
  have a: "validateConfig sample_file
     \<in> set (returnedConfigs (new_PrivacyConfigLoader sample_runtime)
              [LoadConfig (io_with 100 105 (Inr ''(the text of the file)'') (Some sample_file))])"
    by (simp add: first_load)
  have b: "ownMapping (validateConfig sample_file) ''john@example.com'' = Some ''John Smith''"
    by (rule validateConfig_sample_file)
  from returned_keys_lowercase [OF a b] a b show ?thesis by simp
qed

subsection \<open>C7: the freshness window of the cache\<close>

text \<open>
  C7, amended: if a call of \<open>loadConfig\<close> that read the file (the cache was empty or
  stale) completes at time \<open>t\<close>, the clock value it takes when the read has settled, then every further call at a time before \<open>t\<close> plus the
  TTL of one minute returns the cached config and reads no file, however many such calls
  there are; a call at an age of the TTL or more reads the file again; and after
  \<open>invalidateCache\<close> the next call reads the file whatever the time.
\<close>

theorem cache_window_after_read:
  assumes "\<not> is_fresh l (now_start w)" and "loadConfig w l = Resolved out"
  shows "fileReads out = [configPath l]
   \<and> (\<forall>ws. (\<forall>w' \<in> set ws. now_start w' < now_end w + CACHE_TTL) \<longrightarrow>
          run (loader out) (map LoadConfig ws) = replicate (length ws) (cacheHit out))
   \<and> (\<forall>w'. now_end w + CACHE_TTL \<le> now_start w' \<longrightarrow>
          (\<exists>out'. loadConfig w' (loader out) = Resolved out' \<and> fileReads out' = [configPath l]))
   \<and> (\<forall>w'. \<exists>out'. loadConfig w' (invalidateCache (loader out)) = Resolved out'
          \<and> fileReads out' = [configPath l])"
proof -
  from loadConfig_reload [OF assms(1)] assms(2) obtain c ws0 where
    o: "out = \<lparr>returned = c, loader = l\<lparr>config := Some c, lastLoadTime := now_end w\<rparr>,
                fileReads = [configPath l], warnings = ws0\<rparr>"
    by auto
  have 1: "fileReads out = [configPath l]" by (simp add: o)
  have 2: "run (loader out) (map LoadConfig ws) = replicate (length ws) (cacheHit out)"
    if "\<forall>w' \<in> set ws. now_start w' < now_end w + CACHE_TTL" for ws
  proof -
    have "run (loader out) (map LoadConfig ws) =
            replicate (length ws)
              \<lparr>returned = c, loader = loader out, fileReads = [], warnings = []\<rparr>"
      by (rule run_all_fresh) (use that in \<open>simp_all add: o\<close>)
    then show ?thesis by (simp add: cacheHit_def o)
  qed
  have 3: "\<exists>out'. loadConfig w' (loader out) = Resolved out' \<and> fileReads out' = [configPath l]"
    if "now_end w + CACHE_TTL \<le> now_start w'" for w'
  proof -
    have "\<not> is_fresh (loader out) (now_start w')" using that by (simp add: is_fresh_def o)
    from loadConfig_reload [OF this] show ?thesis by (auto simp: o)
  qed
  have 4: "\<exists>out'. loadConfig w' (invalidateCache (loader out)) = Resolved out'
          \<and> fileReads out' = [configPath l]" for w'
  proof -
    have "\<not> is_fresh (invalidateCache (loader out)) (now_start w')"
      by (simp add: is_fresh_def invalidateCache_def)
    from loadConfig_reload [OF this] show ?thesis by (auto simp: o invalidateCache_def)
  qed
  show ?thesis using 1 2 3 4 by blast
qed

theorem cache_window_after_read_witness:
  "\<not> is_fresh (fresh_loader ''/etc/privacy.json'') 0
   \<and> map fileReads
       (run (loaded_at ''/etc/privacy.json'' 1000)
          [LoadConfig (missing_file 30000 30001), LoadConfig (missing_file 60999 61000)])
     = [[], []]
   \<and> (\<exists>out'. loadConfig (missing_file 61000 61001) (loaded_at ''/etc/privacy.json'' 1000)
                = Resolved out' \<and> fileReads out' = [''/etc/privacy.json''])
   \<and> (\<exists>out'. loadConfig (missing_file 1001 1002)
                (invalidateCache (loaded_at ''/etc/privacy.json'' 1000))
                = Resolved out' \<and> fileReads out' = [''/etc/privacy.json''])"
proof -
  let ?l = "fresh_loader ''/etc/privacy.json''"
  let ?out = "\<lparr>returned = DEFAULT_PRIVACY_CONFIG, loader = loaded_at ''/etc/privacy.json'' 1000,
               fileReads = [''/etc/privacy.json''], warnings = []\<rparr>"
  have f: "\<not> is_fresh ?l (now_start (missing_file 0 1000))"
    by (simp add: is_fresh_def fresh_loader_def)
  have l: "loadConfig (missing_file 0 1000) ?l = Resolved ?out"
    by (rule load_fresh_loader)
  note w = cache_window_after_read [OF f l]
  have p: "configPath ?l = ''/etc/privacy.json''" by (simp add: fresh_loader_def)
  from w have "run (loader ?out)
                 (map LoadConfig [missing_file 30000 30001, missing_file 60999 61000])
               = replicate (length [missing_file 30000 30001, missing_file 60999 61000])
                   (cacheHit ?out)"
    by (elim conjE allE [of _ "[missing_file 30000 30001, missing_file 60999 61000]"])
       (simp add: missing_file_simps CACHE_TTL_def)
  then have a: "map fileReads
       (run (loaded_at ''/etc/privacy.json'' 1000)
          [LoadConfig (missing_file 30000 30001), LoadConfig (missing_file 60999 61000)])
     = [[], []]"
    by (simp add: cacheHit_def)
  from w have b: "\<exists>out'. loadConfig (missing_file 61000 61001) (loaded_at ''/etc/privacy.json'' 1000)
                = Resolved out' \<and> fileReads out' = [''/etc/privacy.json'']"
    by (elim conjE allE [of _ "missing_file 61000 61001"])
       (simp add: missing_file_simps CACHE_TTL_def p)
  from w have c: "\<exists>out'. loadConfig (missing_file 1001 1002)
                (invalidateCache (loaded_at ''/etc/privacy.json'' 1000))
                = Resolved out' \<and> fileReads out' = [''/etc/privacy.json'']"
    by (elim conjE allE [of _ "missing_file 1001 1002"])
       (simp add: missing_file_simps CACHE_TTL_def p)
  from f a b c show ?thesis by (simp add: missing_file_simps)
qed

text \<open>
  The claim as it stands speaks of any call that completes at \<open>t\<close>. A call answered from
  the cache does not restart the window: the first call below reads the file and
  completes at 1000, the second starts at 30000 and is answered from the cache, and the
  third, at 70000, is less than one minute after the second and still reads the file.
\<close>

theorem cache_window_counterexample:
  "map fileReads
     (run (fresh_loader ''/etc/privacy.json'')
        [LoadConfig (missing_file 0 1000),
         LoadConfig (missing_file 30000 30001),
         LoadConfig (missing_file 70000 70001)])
   = [[''/etc/privacy.json''], [], [''/etc/privacy.json'']]
   \<and> (70000 :: int) < 30000 + CACHE_TTL"
  by (simp add: load_fresh_loader load_loaded_at CACHE_TTL_def)

subsection \<open>C8: the path of the config file\<close>

text \<open>
  C8, amended: if the override variable \<open>PRIVACY_CONFIG_PATH\<close> is set to a non-empty
  value, the path is that value resolved; otherwise, if \<open>XDG_CONFIG_HOME\<close> is set to a
  non-empty value, the path is that directory joined with the namespace directory and
  \<open>config.json\<close>; otherwise it is the home directory joined with \<open>.config\<close>, joined with
  the same two segments. A variable set to the empty string counts as not set.
\<close>

theorem config_path_precedence:
  "(\<forall>p. process_env rt ''PRIVACY_CONFIG_PATH'' = Some p \<and> p \<noteq> [] \<longrightarrow>
        getPrivacyConfigPath rt = path_resolve rt p)
   \<and> (\<forall>d. \<not> env_truthy (process_env rt ''PRIVACY_CONFIG_PATH'')
          \<and> process_env rt ''XDG_CONFIG_HOME'' = Some d \<and> d \<noteq> [] \<longrightarrow>
        getPrivacyConfigPath rt =
          path_join rt [d, ''stella2211-google-calendar-mcp'', ''config.json''])
   \<and> (\<not> env_truthy (process_env rt ''PRIVACY_CONFIG_PATH'')
        \<and> \<not> env_truthy (process_env rt ''XDG_CONFIG_HOME'') \<longrightarrow>
        getPrivacyConfigPath rt =
          path_join rt [path_join rt [os_homedir rt, ''.config''],
                        ''stella2211-google-calendar-mcp'', ''config.json''])"
  by (simp add: getPrivacyConfigPath_def env_truthy_def Let_def)

theorem config_path_precedence_witness:
  "getPrivacyConfigPath
     (posix_runtime [''PRIVACY_CONFIG_PATH'' \<mapsto> ''/custom/path/config.json'',
                     ''XDG_CONFIG_HOME'' \<mapsto> ''/home/user/.myconfig'']
        ''/srv/app'' ''/home/user'')
   = ''/custom/path/config.json''
   \<and> getPrivacyConfigPath
       (posix_runtime [''XDG_CONFIG_HOME'' \<mapsto> ''/home/user/.myconfig''] ''/srv/app'' ''/home/user'')
     = ''/home/user/.myconfig/stella2211-google-calendar-mcp/config.json''
   \<and> getPrivacyConfigPath (posix_runtime Map.empty ''/srv/app'' ''/home/user'')
     = ''/home/user/.config/stella2211-google-calendar-mcp/config.json''"
proof -
  have a: "getPrivacyConfigPath
     (posix_runtime [''PRIVACY_CONFIG_PATH'' \<mapsto> ''/custom/path/config.json'',
                     ''XDG_CONFIG_HOME'' \<mapsto> ''/home/user/.myconfig'']
        ''/srv/app'' ''/home/user'')
   = ''/custom/path/config.json''"
    using config_path_precedence
      [of "posix_runtime [''PRIVACY_CONFIG_PATH'' \<mapsto> ''/custom/path/config.json'',
                     ''XDG_CONFIG_HOME'' \<mapsto> ''/home/user/.myconfig'']
        ''/srv/app'' ''/home/user''"]
    by (simp add: posix_runtime_simps posix_samples)
  have b: "getPrivacyConfigPath
       (posix_runtime [''XDG_CONFIG_HOME'' \<mapsto> ''/home/user/.myconfig''] ''/srv/app'' ''/home/user'')
     = ''/home/user/.myconfig/stella2211-google-calendar-mcp/config.json''"
    using config_path_precedence
      [of "posix_runtime [''XDG_CONFIG_HOME'' \<mapsto> ''/home/user/.myconfig'']
             ''/srv/app'' ''/home/user''"]
    by (simp add: posix_runtime_simps posix_samples env_truthy_def)
  have c: "getPrivacyConfigPath (posix_runtime Map.empty ''/srv/app'' ''/home/user'')
     = ''/home/user/.config/stella2211-google-calendar-mcp/config.json''"
    using config_path_precedence [of "posix_runtime Map.empty ''/srv/app'' ''/home/user''"]
    by (simp add: posix_runtime_simps posix_samples env_truthy_def)
  from a b c show ?thesis by simp
qed

text \<open>
  The claim as it stands fails when the override variable is set to the empty string:
  its resolved value would be the working directory, and the code falls through to the
  default location instead.
\<close>

theorem config_path_empty_override_counterexample:
  "process_env (posix_runtime [''PRIVACY_CONFIG_PATH'' \<mapsto> []] ''/srv/app'' ''/home/user'')
     ''PRIVACY_CONFIG_PATH'' = Some []
   \<and> path_resolve (posix_runtime [''PRIVACY_CONFIG_PATH'' \<mapsto> []] ''/srv/app'' ''/home/user'') []
     = ''/srv/app''
   \<and> getPrivacyConfigPath
       (posix_runtime [''PRIVACY_CONFIG_PATH'' \<mapsto> []] ''/srv/app'' ''/home/user'')
     = ''/home/user/.config/stella2211-google-calendar-mcp/config.json''
   \<and> getPrivacyConfigPath
       (posix_runtime [''PRIVACY_CONFIG_PATH'' \<mapsto> []] ''/srv/app'' ''/home/user'')
     \<noteq> path_resolve
         (posix_runtime [''PRIVACY_CONFIG_PATH'' \<mapsto> []] ''/srv/app'' ''/home/user'') []"
  by (simp add: getPrivacyConfigPath_def env_truthy_def posix_runtime_simps posix_samples)

subsection \<open>C9: keys that collide after lowercasing\<close>

text \<open>
  C9 says that of several string-valued entries whose keys lowercase to the same string
  exactly one is kept, the one enumerated last. \<open>rebuildMappings_last_wins\<close> and
  \<open>rebuildMappings_other_keys\<close> above show this for every key but one. The keys
  \<open>__PROTO__\<close> and \<open>__proto__\<close> collide on \<open>__proto__\<close>, both with string values, and the
  code keeps no entry under that key.
\<close>

theorem validateConfig_collision_on_proto_key:
  "toLowerCase ''__PROTO__'' = toLowerCase ''__proto__''
   \<and> ownMapping
       (validateConfig
          (JObject [(''emailMappings'',
                     JObject [(''__PROTO__'', JString ''First''),
                              (''__proto__'', JString ''Second'')])]))
       (toLowerCase ''__proto__'') = None"
  by (simp add: validateConfig_def is_object_def rebuildMappings_def
      js_set_def toLowerCase_samples ownMapping_def DEFAULT_PRIVACY_CONFIG_def)

subsection \<open>C10: the fields of every returned config\<close>

text \<open>
  C10: every config that \<open>loadConfig\<close> returns, over any use of a new loader, has its
  \<open>version\<close> and its \<open>emailMappings\<close> present; the defaults are the version 1 and the
  empty mappings, and the default \<open>defaultCalendarId\<close> is absent.
\<close>

theorem returned_fields_present:
  "(c \<in> set (returnedConfigs (new_PrivacyConfigLoader rt) calls) \<longrightarrow>
      version c \<noteq> None \<and> emailMappings c \<noteq> None)
   \<and> version DEFAULT_PRIVACY_CONFIG = Some 1
   \<and> emailMappings DEFAULT_PRIVACY_CONFIG = Some Map.empty
   \<and> defaultCalendarId DEFAULT_PRIVACY_CONFIG = None"
proof (intro conjI impI)
  assume "c \<in> set (returnedConfigs (new_PrivacyConfigLoader rt) calls)"
  then have "wellFormed c" by (rule returnedConfigs_wellFormed)
  then show "version c \<noteq> None" "emailMappings c \<noteq> None" by (simp_all add: wellFormed_def)
qed (simp_all add: DEFAULT_fields)

theorem returned_fields_present_witness:
  "DEFAULT_PRIVACY_CONFIG
     \<in> set (returnedConfigs (new_PrivacyConfigLoader sample_runtime)
              [LoadConfig (io_with 100 105 (Inl (ErrnoException ''ENOENT'')) None)])
   \<and> version DEFAULT_PRIVACY_CONFIG \<noteq> None
   \<and> emailMappings DEFAULT_PRIVACY_CONFIG \<noteq> None
   \<and> defaultCalendarId DEFAULT_PRIVACY_CONFIG = None"
proof -
  have a: "DEFAULT_PRIVACY_CONFIG
     \<in> set (returnedConfigs (new_PrivacyConfigLoader sample_runtime)
              [LoadConfig (io_with 100 105 (Inl (ErrnoException ''ENOENT'')) None)])"
    by (simp add: first_load_missing)
  show ?thesis
    using a returned_fields_present [of DEFAULT_PRIVACY_CONFIG sample_runtime
        "[LoadConfig (io_with 100 105 (Inl (ErrnoException ''ENOENT'')) None)]"]
    by blast
qed

end
